theory Spec2Isabelle
  imports Complex_Main "HOL-Library.Multiset" "HOL-Library.Sublist"
begin

section \<open>JavaScript strings\<close>

text \<open>
  A JavaScript string is a sequence of UTF-16 code units; \<open>length\<close>, \<open>includes\<close>,
  \<open>split\<close> and the regular expressions of the source (no \<open>u\<close> flag) all work on
  code units. A code unit is modelled by its number.
\<close>

type_synonym jsstring = "nat list"

definition js :: "string \<Rightarrow> jsstring" where
  \<comment> \<open>an ASCII literal of the source as a code unit sequence\<close>
  "js s = map of_char s"

definition isSpace :: "nat \<Rightarrow> bool" where
  \<comment> \<open>the regex class \<open>\s\<close>, which is also what \<open>trim\<close> strips:
      TAB LF VT FF CR SP NBSP, U+1680, U+2000..U+200A, LS, PS, U+202F, U+205F, U+3000, U+FEFF\<close>
  "isSpace c = (c \<in> set [9, 10, 11, 12, 13, 32, 160, 5760, 8232, 8233, 8239, 8287, 12288, 65279]
                \<or> (8192 \<le> c \<and> c \<le> 8202))"

definition isUpper :: "nat \<Rightarrow> bool" where
  "isUpper c = (65 \<le> c \<and> c \<le> 90)"

definition isLower :: "nat \<Rightarrow> bool" where
  "isLower c = (97 \<le> c \<and> c \<le> 122)"

definition isDigit :: "nat \<Rightarrow> bool" where
  "isDigit c = (48 \<le> c \<and> c \<le> 57)"

definition isWord :: "nat \<Rightarrow> bool" where
  \<comment> \<open>the regex class \<open>\w\<close> = \<open>[A-Za-z0-9_]\<close>\<close>
  "isWord c = (isUpper c \<or> isLower c \<or> isDigit c \<or> c = 95)"

abbreviation hyphen :: nat where
  "hyphen \<equiv> 45"

definition asciiLower :: "nat \<Rightarrow> nat" where
  "asciiLower c = (if isUpper c then c + 32 else c)"

definition toLowerCase :: "(jsstring \<Rightarrow> jsstring) \<Rightarrow> jsstring \<Rightarrow> jsstring" where
  \<comment> \<open>\<open>String.prototype.toLowerCase\<close>. On a string of ASCII code units it maps \<open>A-Z\<close> to
      \<open>a-z\<close> and keeps the rest; on any other string the result comes from the Unicode
      case tables of the runtime, which are the parameter \<open>uc\<close>.\<close>
  "toLowerCase uc s = (if list_all (\<lambda>c. c < 128) s then map asciiLower s else uc s)"

definition trim :: "jsstring \<Rightarrow> jsstring" where
  \<comment> \<open>\<open>String.prototype.trim\<close>\<close>
  "trim s = rev (dropWhile isSpace (rev (dropWhile isSpace s)))"

fun startsWith :: "jsstring \<Rightarrow> jsstring \<Rightarrow> bool" where
  "startsWith s [] = True"
| "startsWith [] (d # t) = False"
| "startsWith (c # s) (d # t) = (c = d \<and> startsWith s t)"

fun includes_str :: "jsstring \<Rightarrow> jsstring \<Rightarrow> bool" where
  \<comment> \<open>\<open>s.includes(t)\<close>: \<open>t\<close> occurs in \<open>s\<close> at some position\<close>
  "includes_str [] t = (t = [])"
| "includes_str (c # s) t = (startsWith (c # s) t \<or> includes_str s t)"

section \<open>Slug generator and read-time estimator (NotesManager.tsx)\<close>

definition removeNonSlugChars :: "jsstring \<Rightarrow> jsstring" where
  \<comment> \<open>\<open>.replace(/[^\w\s-]/g, '')\<close>\<close>
  "removeNonSlugChars s = filter (\<lambda>c. isWord c \<or> isSpace c \<or> c = hyphen) s"

definition isSep :: "nat \<Rightarrow> bool" where
  \<comment> \<open>the regex class \<open>[\s_-]\<close>\<close>
  "isSep c = (isSpace c \<or> c = 95 \<or> c = hyphen)"

function collapseSeps :: "jsstring \<Rightarrow> jsstring" where
  \<comment> \<open>\<open>.replace(/[\s_-]+/g, '-')\<close>: every maximal run of separators becomes one hyphen\<close>
  "collapseSeps [] = []"
| "collapseSeps (c # s) =
     (if isSep c then hyphen # collapseSeps (dropWhile isSep s) else c # collapseSeps s)"
  by pat_completeness auto
termination
  by (relation "measure length") (auto simp: length_dropWhile_le less_Suc_eq_le)

definition stripHyphens :: "jsstring \<Rightarrow> jsstring" where
  \<comment> \<open>\<open>.replace(/^-+|-+$/g, '')\<close>: the leading run and the trailing run of hyphens go\<close>
  "stripHyphens s = rev (dropWhile (\<lambda>c. c = hyphen) (rev (dropWhile (\<lambda>c. c = hyphen) s)))"

definition generateSlug :: "(jsstring \<Rightarrow> jsstring) \<Rightarrow> jsstring \<Rightarrow> jsstring" where
  "generateSlug uc title =
     stripHyphens (collapseSeps (removeNonSlugChars (trim (toLowerCase uc title))))"

function splitSpaces :: "jsstring \<Rightarrow> jsstring list" where
  \<comment> \<open>\<open>s.split(/\s+/)\<close>: the pieces between maximal runs of white space; a run at
      either end leaves an empty piece there, and the empty string gives one empty piece\<close>
  "splitSpaces s =
     (case dropWhile (\<lambda>c. \<not> isSpace c) s of
        [] \<Rightarrow> [s]
      | c # r \<Rightarrow> takeWhile (\<lambda>c. \<not> isSpace c) s # splitSpaces (dropWhile isSpace r))"
  by pat_completeness auto
termination
proof (relation "measure length", goal_cases)
  case 1
  show ?case by simp
next
  case (2 s c r)
  have "length (dropWhile isSpace r) \<le> length r"
    by (rule length_dropWhile_le)
  moreover have "length (c # r) \<le> length s"
    using length_dropWhile_le [of "\<lambda>c. \<not> isSpace c" s] 2 by simp
  ultimately show ?case by simp
qed

declare splitSpaces.simps [simp del]

definition wordCount :: "jsstring \<Rightarrow> nat" where
  \<comment> \<open>\<open>content.split(/\s+/).filter(word => word.length > 0).length\<close>\<close>
  "wordCount content = length (filter (\<lambda>word. length word > 0) (splitSpaces content))"

definition calculateReadTime :: "jsstring \<Rightarrow> nat" where
  \<comment> \<open>\<open>Math.max(1, Math.ceil(wordCount / 200))\<close>; the quotient of two integers below
      \<open>2^53\<close> is rounded up exactly, so the ceiling is the integer one\<close>
  "calculateReadTime content =
     (let wordsPerMinute = 200; wc = wordCount content
      in max 1 ((wc + (wordsPerMinute - 1)) div wordsPerMinute))"

section \<open>Data model\<close>

text \<open>
  The notes, units and years of the shared store, with the fields that the pages read;
  the field \<open>id\<close> of a note is \<open>note_id\<close> here. \<open>created_at\<close> holds the instant that
  \<open>new Date(note.created_at).getTime()\<close> yields, in milliseconds.
\<close>

record Note =
  note_id :: jsstring
  slug :: jsstring
  title :: jsstring
  excerpt :: jsstring
  content :: jsstring
  unit_id :: jsstring
  year_id :: jsstring
  difficulty_level :: jsstring
  view_count :: int
  is_published :: bool
  is_featured :: bool
  created_at :: int

record year =
  y_id :: jsstring
  year_number :: int

record unit_rec =
  u_id :: jsstring
  u_year_id :: jsstring

section \<open>Sorting (SearchPage.tsx, UnitPage.tsx)\<close>

fun insertBy :: "('a \<Rightarrow> 'a \<Rightarrow> int) \<Rightarrow> 'a \<Rightarrow> 'a list \<Rightarrow> 'a list" where
  "insertBy cmp x [] = [x]"
| "insertBy cmp x (y # ys) = (if cmp x y \<le> 0 then x # y # ys else y # insertBy cmp x ys)"

definition sort_js :: "('a \<Rightarrow> 'a \<Rightarrow> int) \<Rightarrow> 'a list \<Rightarrow> 'a list" where
  \<comment> \<open>\<open>Array.prototype.sort(compareFn)\<close>: the sort is stable, so with a consistent
      comparison function the result is the one of inserting each element, from the
      last to the first, before the first element that it is not above\<close>
  "sort_js cmp xs = foldr (insertBy cmp) xs []"

definition compareNotes :: "(jsstring \<Rightarrow> jsstring \<Rightarrow> int) \<Rightarrow> jsstring \<Rightarrow> Note \<Rightarrow> Note \<Rightarrow> int" where
  \<comment> \<open>the comparison function of both pages; \<open>lc\<close> is \<open>String.prototype.localeCompare\<close>\<close>
  "compareNotes lc sortBy a b =
     (if sortBy = js ''newest'' then created_at b - created_at a
      else if sortBy = js ''oldest'' then created_at a - created_at b
      else if sortBy = js ''popular'' then view_count b - view_count a
      else if sortBy = js ''title'' then lc (title a) (title b)
      else 0)"

definition sortedResults :: "(jsstring \<Rightarrow> jsstring \<Rightarrow> int) \<Rightarrow> jsstring \<Rightarrow> Note list \<Rightarrow> Note list" where
  "sortedResults lc sortBy searchResults = sort_js (compareNotes lc sortBy) searchResults"

section \<open>Student-facing pages\<close>

subsection \<open>UnitPage.tsx\<close>

definition unitFilter :: "jsstring option \<Rightarrow> jsstring \<Rightarrow> Note \<Rightarrow> bool" where
  "unitFilter unitId difficultyFilter n =
     (Some (unit_id n) = unitId \<and> is_published n \<and>
      (difficultyFilter = js ''all'' \<or> difficulty_level n = difficultyFilter))"

definition unitNotes ::
  "(jsstring \<Rightarrow> jsstring \<Rightarrow> int) \<Rightarrow> Note list \<Rightarrow> jsstring option \<Rightarrow> jsstring \<Rightarrow> jsstring \<Rightarrow> Note list" where
  "unitNotes lc notes unitId difficultyFilter sortBy =
     sort_js (compareNotes lc sortBy) (filter (unitFilter unitId difficultyFilter) notes)"

definition unitPage_notes ::
  "(jsstring \<Rightarrow> jsstring \<Rightarrow> int) \<Rightarrow> bool \<Rightarrow> unit_rec list \<Rightarrow> Note list \<Rightarrow> jsstring option \<Rightarrow>
   jsstring \<Rightarrow> jsstring \<Rightarrow> Note list" where
  \<comment> \<open>the notes the page renders: none while loading or when the unit is unknown\<close>
  "unitPage_notes lc loading units notes unitId difficultyFilter sortBy =
     (if loading then []
      else case find (\<lambda>u. Some (u_id u) = unitId) units of
        None \<Rightarrow> []
      | Some u \<Rightarrow> unitNotes lc notes unitId difficultyFilter sortBy)"

subsection \<open>YearPage.tsx\<close>

definition currentYear :: "(jsstring \<Rightarrow> int option) \<Rightarrow> year list \<Rightarrow> jsstring option \<Rightarrow> year option" where
  \<comment> \<open>\<open>years.find(year => year.year_number === parseInt(yearNumber || '1'))\<close>; \<open>parseInt\<close>
      is the built-in, \<open>None\<close> standing for \<open>NaN\<close>, which equals no number\<close>
  "currentYear parseInt years yearNumber =
     (let p = parseInt (case yearNumber of None \<Rightarrow> js ''1'' | Some s \<Rightarrow> if s = [] then js ''1'' else s)
      in find (\<lambda>y. Some (year_number y) = p) years)"

definition yearNotes :: "Note list \<Rightarrow> year option \<Rightarrow> jsstring \<Rightarrow> Note list" where
  "yearNotes notes cy selectedUnit =
     filter (\<lambda>n. Some (year_id n) = map_option y_id cy \<and> is_published n \<and>
                 (selectedUnit = js ''all'' \<or> unit_id n = selectedUnit)) notes"

definition yearUnits :: "unit_rec list \<Rightarrow> year option \<Rightarrow> unit_rec list" where
  "yearUnits units cy = filter (\<lambda>u. Some (u_year_id u) = map_option y_id cy) units"

definition yearUnitNotes :: "Note list \<Rightarrow> unit_rec \<Rightarrow> Note list" where
  \<comment> \<open>\<open>notes.filter(note => note.unit_id === unit.id && note.is_published)\<close>, counted on each unit card\<close>
  "yearUnitNotes notes u = filter (\<lambda>n. unit_id n = u_id u \<and> is_published n) notes"

definition yearPage_notes ::
  "(jsstring \<Rightarrow> int option) \<Rightarrow> bool \<Rightarrow> year list \<Rightarrow> unit_rec list \<Rightarrow> Note list \<Rightarrow>
   jsstring option \<Rightarrow> jsstring \<Rightarrow> Note list" where
  \<comment> \<open>the notes the page shows or counts: none while loading or when the year is unknown\<close>
  "yearPage_notes parseInt loading years units notes yearNumber selectedUnit =
     (if loading then []
      else case currentYear parseInt years yearNumber of
        None \<Rightarrow> []
      | Some y \<Rightarrow> yearNotes notes (Some y) selectedUnit
                  @ concat (map (yearUnitNotes notes) (yearUnits units (Some y))))"

subsection \<open>NotePage.tsx\<close>

definition findNote :: "Note list \<Rightarrow> jsstring option \<Rightarrow> Note option" where
  \<comment> \<open>\<open>notes.find(n => n.slug === slug)\<close>\<close>
  "findNote notes slugParam = find (\<lambda>n. Some (slug n) = slugParam) notes"

definition relatedNotes :: "Note list \<Rightarrow> Note option \<Rightarrow> Note list" where
  \<comment> \<open>\<open>note?.unit_id\<close> and \<open>note?.id\<close> are \<open>undefined\<close> when there is no note\<close>
  "relatedNotes notes nt =
     take 3 (filter (\<lambda>n. Some (unit_id n) = map_option unit_id nt
                         \<and> Some (note_id n) \<noteq> map_option note_id nt
                         \<and> is_published n) notes)"

definition notePage_notes :: "bool \<Rightarrow> Note list \<Rightarrow> jsstring option \<Rightarrow> Note list" where
  \<comment> \<open>the notes the page renders: the note of the route, then its related notes\<close>
  "notePage_notes loading notes slugParam =
     (if loading then []
      else case findNote notes slugParam of
        None \<Rightarrow> []
      | Some n \<Rightarrow> n # relatedNotes notes (Some n))"

section \<open>Admin manager (NotesManager.tsx)\<close>

record FormData =
  fd_title :: jsstring
  fd_slug :: jsstring
  fd_content :: jsstring
  fd_excerpt :: jsstring
  fd_unit_id :: jsstring
  fd_year_id :: jsstring
  fd_lecturer_id :: jsstring
  fd_difficulty_level :: jsstring
  fd_estimated_read_time :: nat
  fd_is_published :: bool
  fd_is_featured :: bool
  fd_featured_image :: jsstring

definition INITIAL_FORM_DATA :: FormData where
  "INITIAL_FORM_DATA =
     \<lparr>fd_title = [], fd_slug = [], fd_content = [], fd_excerpt = [], fd_unit_id = [],
      fd_year_id = [], fd_lecturer_id = [], fd_difficulty_level = js ''Intermediate'',
      fd_estimated_read_time = 5, fd_is_published = False, fd_is_featured = False,
      fd_featured_image = []\<rparr>"

text \<open>The state of the component, as its \<open>useState\<close> hooks hold it.\<close>

record manager =
  searchTerm :: jsstring
  statusFilter :: jsstring
  yearFilter :: jsstring
  showForm :: bool
  editingNote :: "Note option"
  submitting :: bool
  formData :: FormData

text \<open>
  What a handler does to the outside: the toasts it shows, the calls it makes to the
  store, and what it logs. The argument of an update is the object passed to
  \<open>updateNote\<close>, as its list of fields.
\<close>

datatype jsval = VStr jsstring | VNum int | VBool bool

type_synonym payload = "(string \<times> jsval) list"

datatype effect =
    ToastError jsstring
  | ToastSuccess jsstring
  | CreateNote payload
  | UpdateNote jsstring payload
  | ConsoleError jsstring

text \<open>What a rejected call throws: an \<open>Error\<close> with its message, or any other value.\<close>

datatype thrown = ErrorObj jsstring | NonError

definition filteredNotes :: "(jsstring \<Rightarrow> jsstring) \<Rightarrow> Note list \<Rightarrow> jsstring \<Rightarrow> jsstring \<Rightarrow> jsstring \<Rightarrow> Note list" where
  "filteredNotes uc notes search status yr =
     filter (\<lambda>n.
       let matchesSearch = (includes_str (toLowerCase uc (title n)) (toLowerCase uc search) \<or>
                            includes_str (toLowerCase uc (excerpt n)) (toLowerCase uc search));
           matchesStatus = (status = js ''all'' \<or>
                            (status = js ''published'' \<and> is_published n) \<or>
                            (status = js ''draft'' \<and> \<not> is_published n));
           matchesYear = (yr = js ''all'' \<or> year_id n = yr)
       in matchesSearch \<and> matchesStatus \<and> matchesYear) notes"

definition handleTitleChange :: "(jsstring \<Rightarrow> jsstring) \<Rightarrow> jsstring \<Rightarrow> manager \<Rightarrow> manager" where
  "handleTitleChange uc t st =
     st\<lparr>formData := (formData st)\<lparr>fd_title := t, fd_slug := generateSlug uc t\<rparr>\<rparr>"

definition handleContentChange :: "jsstring \<Rightarrow> manager \<Rightarrow> manager" where
  "handleContentChange c st =
     st\<lparr>formData := (formData st)\<lparr>fd_content := c, fd_estimated_read_time := calculateReadTime c\<rparr>\<rparr>"

text \<open>A key of \<open>FormData\<close> with a value of its type, as \<open>handleFormDataChange\<close> takes them.\<close>

datatype field_value =
    Title jsstring
  | Slug jsstring
  | Content jsstring
  | Excerpt jsstring
  | Unit_id jsstring
  | Year_id jsstring
  | Lecturer_id jsstring
  | Difficulty_level jsstring
  | Estimated_read_time nat
  | Is_published bool
  | Is_featured bool
  | Featured_image jsstring

fun setField :: "field_value \<Rightarrow> FormData \<Rightarrow> FormData" where
  "setField (Title v) fd = fd\<lparr>fd_title := v\<rparr>"
| "setField (Slug v) fd = fd\<lparr>fd_slug := v\<rparr>"
| "setField (Content v) fd = fd\<lparr>fd_content := v\<rparr>"
| "setField (Excerpt v) fd = fd\<lparr>fd_excerpt := v\<rparr>"
| "setField (Unit_id v) fd = fd\<lparr>fd_unit_id := v\<rparr>"
| "setField (Year_id v) fd = fd\<lparr>fd_year_id := v\<rparr>"
| "setField (Lecturer_id v) fd = fd\<lparr>fd_lecturer_id := v\<rparr>"
| "setField (Difficulty_level v) fd = fd\<lparr>fd_difficulty_level := v\<rparr>"
| "setField (Estimated_read_time v) fd = fd\<lparr>fd_estimated_read_time := v\<rparr>"
| "setField (Is_published v) fd = fd\<lparr>fd_is_published := v\<rparr>"
| "setField (Is_featured v) fd = fd\<lparr>fd_is_featured := v\<rparr>"
| "setField (Featured_image v) fd = fd\<lparr>fd_featured_image := v\<rparr>"

definition handleFormDataChange :: "field_value \<Rightarrow> manager \<Rightarrow> manager" where
  \<comment> \<open>\<open>setFormData(prev => ({...prev, [key]: value}))\<close>\<close>
  "handleFormDataChange kv st = st\<lparr>formData := setField kv (formData st)\<rparr>"

definition yearSelectOnChange :: "jsstring \<Rightarrow> manager \<Rightarrow> manager" where
  \<comment> \<open>the \<open>onChange\<close> of the Academic Year select: two updates, applied in order\<close>
  "yearSelectOnChange v st =
     handleFormDataChange (Unit_id []) (handleFormDataChange (Year_id v) st)"

definition validateForm :: "FormData \<Rightarrow> bool \<times> effect list" where
  "validateForm fd =
     (if trim (fd_title fd) = [] then (False, [ToastError (js ''Note title is required'')])
      else if trim (fd_content fd) = [] then (False, [ToastError (js ''Note content is required'')])
      else if trim (fd_excerpt fd) = [] then (False, [ToastError (js ''Note excerpt is required'')])
      else if fd_unit_id fd = [] then (False, [ToastError (js ''Please select a unit'')])
      else if fd_year_id fd = [] then (False, [ToastError (js ''Please select a year'')])
      else (True, []))"

definition resetForm :: "manager \<Rightarrow> manager" where
  "resetForm st = st\<lparr>formData := INITIAL_FORM_DATA, editingNote := None, showForm := False\<rparr>"

definition noteData :: "(jsstring \<Rightarrow> jsstring) \<Rightarrow> FormData \<Rightarrow> payload" where
  \<comment> \<open>\<open>{...formData, title: ..., excerpt: ..., content: ..., slug: ...}\<close>\<close>
  "noteData uc fd =
     [(''title'', VStr (trim (fd_title fd))),
      (''slug'', VStr (if fd_slug fd \<noteq> [] then fd_slug fd else generateSlug uc (fd_title fd))),
      (''content'', VStr (trim (fd_content fd))),
      (''excerpt'', VStr (trim (fd_excerpt fd))),
      (''unit_id'', VStr (fd_unit_id fd)),
      (''year_id'', VStr (fd_year_id fd)),
      (''lecturer_id'', VStr (fd_lecturer_id fd)),
      (''difficulty_level'', VStr (fd_difficulty_level fd)),
      (''estimated_read_time'', VNum (int (fd_estimated_read_time fd))),
      (''is_published'', VBool (fd_is_published fd)),
      (''is_featured'', VBool (fd_is_featured fd)),
      (''featured_image'', VStr (fd_featured_image fd))]"

definition handleSubmit :: "(jsstring \<Rightarrow> jsstring) \<Rightarrow> thrown option \<Rightarrow> manager \<Rightarrow> manager \<times> effect list" where
  \<comment> \<open>\<open>outcome\<close> is how the awaited store call ends: \<open>None\<close> when it resolves, the thrown
      value when it rejects. The result is the state once the handler has run to its end.\<close>
  "handleSubmit uc outcome st =
     (case validateForm (formData st) of
        (False, toasts) \<Rightarrow> (st, toasts)
      | (True, toasts) \<Rightarrow>
          let call = (case editingNote st of
                        Some n \<Rightarrow> UpdateNote (note_id n) (noteData uc (formData st))
                      | None \<Rightarrow> CreateNote (noteData uc (formData st)))
          in case outcome of
               None \<Rightarrow>
                 ((resetForm st)\<lparr>submitting := False\<rparr>,
                  toasts @ [call, ToastSuccess (case editingNote st of
                                       Some n \<Rightarrow> js ''Note updated successfully''
                                     | None \<Rightarrow> js ''Note created successfully'')])
             | Some err \<Rightarrow>
                 (st\<lparr>submitting := False\<rparr>,
                  toasts @ [call,
                   ToastError (js ''Failed to save note: '' @
                     (case err of ErrorObj m \<Rightarrow> m | NonError \<Rightarrow> js ''An unexpected error occurred'')),
                   ConsoleError (js ''Error saving note:'')]))"

definition togglePublishStatus :: "thrown option \<Rightarrow> Note \<Rightarrow> manager \<Rightarrow> manager \<times> effect list" where
  "togglePublishStatus outcome n st =
     (let call = UpdateNote (note_id n) [(''is_published'', VBool (\<not> is_published n))]
      in case outcome of
           None \<Rightarrow>
             (st, [call, ToastSuccess (js ''Note '' @
                     (if \<not> is_published n then js ''published'' else js ''unpublished'') @
                     js '' successfully'')])
         | Some err \<Rightarrow>
             (st, [call,
                   ToastError (case err of ErrorObj m \<Rightarrow> m | NonError \<Rightarrow> js ''Failed to update note status''),
                   ConsoleError (js ''Error updating note status:'')]))"

fun isStoreCall :: "effect \<Rightarrow> bool" where
  "isStoreCall (CreateNote p) = True"
| "isStoreCall (UpdateNote i p) = True"
| "isStoreCall e = False"

fun isToast :: "effect \<Rightarrow> bool" where
  "isToast (ToastError m) = True"
| "isToast (ToastSuccess m) = True"
| "isToast e = False"

section \<open>Notions of the specification\<close>

definition consistent :: "('a \<Rightarrow> 'a \<Rightarrow> int) \<Rightarrow> bool" where
  \<comment> \<open>a comparison function as \<open>Array.prototype.sort\<close> expects it: \<open>a\<close> is below \<open>b\<close>
      exactly when \<open>b\<close> is above \<open>a\<close>, and being below or equal is transitive\<close>
  "consistent cmp \<longleftrightarrow>
     (\<forall>a b. (cmp a b < 0) = (0 < cmp b a)) \<and>
     (\<forall>a b c. cmp a b \<le> 0 \<longrightarrow> cmp b c \<le> 0 \<longrightarrow> cmp a c \<le> 0)"

definition validationRules_spec :: "FormData \<Rightarrow> (bool \<times> jsstring) list" where
  \<comment> \<open>the rules of submission in the order the specification lists them, each with
      the message the source gives it: whether the draft passes the rule (a text passes
      when something other than white space is in it), and the message\<close>
  "validationRules_spec fd =
     [(trim (fd_title fd) \<noteq> [], js ''Note title is required''),
      (trim (fd_content fd) \<noteq> [], js ''Note content is required''),
      (trim (fd_excerpt fd) \<noteq> [], js ''Note excerpt is required''),
      (fd_unit_id fd \<noteq> [], js ''Please select a unit''),
      (fd_year_id fd \<noteq> [], js ''Please select a year'')]"

definition setNoteField :: "string \<times> jsval \<Rightarrow> Note \<Rightarrow> Note" where
  "setNoteField kv n =
     (case kv of
        (k, VStr v) \<Rightarrow>
          if k = ''slug'' then n\<lparr>slug := v\<rparr>
          else if k = ''title'' then n\<lparr>title := v\<rparr>
          else if k = ''excerpt'' then n\<lparr>excerpt := v\<rparr>
          else if k = ''content'' then n\<lparr>content := v\<rparr>
          else if k = ''unit_id'' then n\<lparr>unit_id := v\<rparr>
          else if k = ''year_id'' then n\<lparr>year_id := v\<rparr>
          else if k = ''difficulty_level'' then n\<lparr>difficulty_level := v\<rparr>
          else n
      | (k, VNum v) \<Rightarrow> if k = ''view_count'' then n\<lparr>view_count := v\<rparr> else n
      | (k, VBool v) \<Rightarrow>
          if k = ''is_published'' then n\<lparr>is_published := v\<rparr>
          else if k = ''is_featured'' then n\<lparr>is_featured := v\<rparr>
          else n)"

definition applyUpdate :: "payload \<Rightarrow> Note \<Rightarrow> Note" where
  \<comment> \<open>Modelled from the spec: \<open>updateNote(id, partialData)\<close> of the store, which is not
      part of the sources, "supports partial field updates": the fields the payload
      names take its values, every other field of the note stays as it is.\<close>
  "applyUpdate p n = fold setNoteField p n"

section \<open>Sample data\<close>

fun lexCompare :: "jsstring \<Rightarrow> jsstring \<Rightarrow> int" where
  \<comment> \<open>the comparison of strings by code units, a sample of a locale's comparison\<close>
  "lexCompare [] [] = 0"
| "lexCompare [] (y # ys) = -1"
| "lexCompare (x # xs) [] = 1"
| "lexCompare (x # xs) (y # ys) = (if x < y then -1 else if y < x then 1 else lexCompare xs ys)"

definition sampleNote :: "string \<Rightarrow> string \<Rightarrow> bool \<Rightarrow> int \<Rightarrow> int \<Rightarrow> Note" where
  \<comment> \<open>a note named \<open>name\<close> of unit \<open>u\<close> in year \<open>y1\<close>\<close>
  "sampleNote name u published views created =
     \<lparr>note_id = js name, slug = js name, title = js name, excerpt = js ''Notes on '' @ js name,
      content = [], unit_id = js u, year_id = js ''y1'', difficulty_level = js ''Beginner'',
      view_count = views, is_published = published, is_featured = False, created_at = created\<rparr>"

definition sampleNotes :: "Note list" where
  "sampleNotes =
     [sampleNote ''b'' ''u1'' True 5 100,
      sampleNote ''a'' ''u1'' False 10 300,
      sampleNote ''c'' ''u2'' True 7 200]"

definition sampleUnit :: "Note list" where
  \<comment> \<open>a store of seven notes, six of them of unit \<open>u1\<close>, one of these a draft\<close>
  "sampleUnit =
     [sampleNote ''n0'' ''u1'' True 0 0, sampleNote ''n1'' ''u1'' True 0 0,
      sampleNote ''n2'' ''u1'' False 0 0, sampleNote ''n3'' ''u2'' True 0 0,
      sampleNote ''n4'' ''u1'' True 0 0, sampleNote ''n5'' ''u1'' True 0 0,
      sampleNote ''n6'' ''u1'' True 0 0]"

definition blankManager :: manager where
  \<comment> \<open>the component as it is mounted\<close>
  "blankManager =
     \<lparr>searchTerm = [], statusFilter = js ''all'', yearFilter = js ''all'', showForm = False,
      editingNote = None, submitting = False, formData = INITIAL_FORM_DATA\<rparr>"

definition sampleDraft :: manager where
  \<comment> \<open>the form open on a new note with every required field filled in\<close>
  "sampleDraft =
     blankManager\<lparr>showForm := True,
       formData := INITIAL_FORM_DATA\<lparr>fd_title := js ''The Heart'', fd_content := js ''Four chambers.'',
         fd_excerpt := js ''Cardiac anatomy'', fd_unit_id := js ''u1'', fd_year_id := js ''y1''\<rparr>\<rparr>"

section \<open>The slug generator\<close>

lemma asciiLower_not_upper: "\<not> isUpper (asciiLower c)"
  by (simp add: asciiLower_def isUpper_def)

lemma toLowerCase_no_upper:
  assumes "list_all (\<lambda>c. \<not> isUpper c) (uc s)"
  shows "list_all (\<lambda>c. \<not> isUpper c) (toLowerCase uc s)"
  using assms by (simp add: toLowerCase_def list_all_iff asciiLower_not_upper)

lemma set_trim: "set (trim s) \<subseteq> set s"
proof -
  have "set (dropWhile isSpace (rev (dropWhile isSpace s))) \<subseteq> set (dropWhile isSpace s)"
    using set_dropWhileD [of _ isSpace "rev (dropWhile isSpace s)"] by auto
  moreover have "set (dropWhile isSpace s) \<subseteq> set s"
    using set_dropWhileD [of _ isSpace s] by auto
  ultimately show ?thesis by (auto simp: trim_def)
qed

lemma set_stripHyphens: "set (stripHyphens s) \<subseteq> set s"
proof -
  let ?h = "\<lambda>c. c = hyphen"
  have "set (dropWhile ?h (rev (dropWhile ?h s))) \<subseteq> set (dropWhile ?h s)"
    using set_dropWhileD [of _ ?h "rev (dropWhile ?h s)"] by auto
  moreover have "set (dropWhile ?h s) \<subseteq> set s"
    using set_dropWhileD [of _ ?h s] by auto
  ultimately show ?thesis by (auto simp: stripHyphens_def)
qed

lemma set_collapseSeps:
  "set (collapseSeps s) \<subseteq> {c \<in> set s. \<not> isSep c} \<union> {hyphen}"
proof (induction s rule: collapseSeps.induct)
  case 1
  show ?case by simp
next
  case (2 c s)
  show ?case
  proof (cases "isSep c")
    case True
    have "set (dropWhile isSep s) \<subseteq> set s"
      using set_dropWhileD [of _ isSep s] by auto
    with True 2(1) show ?thesis by auto
  next
    case False
    with 2(2) show ?thesis by auto
  qed
qed

lemma collapseSeps_head:
  "collapseSeps (dropWhile isSep s) = [] \<or>
   (\<exists>c r. collapseSeps (dropWhile isSep s) = c # r \<and> \<not> isSep c)"
proof (cases "dropWhile isSep s")
  case Nil
  then have "collapseSeps (dropWhile isSep s) = []" by (simp only: collapseSeps.simps)
  then show ?thesis by blast
next
  case (Cons c r)
  then have "\<not> isSep c"
    using hd_dropWhile [of isSep s] by auto
  with Cons show ?thesis by simp
qed

lemma startsWith_iff: "startsWith s t \<longleftrightarrow> (\<exists>q. s = t @ q)"
  by (induction s t rule: startsWith.induct) auto

lemma includes_str_iff: "includes_str s t \<longleftrightarrow> (\<exists>p q. s = p @ t @ q)"
proof (induction s)
  case Nil
  show ?case by auto
next
  case (Cons c s)
  show ?case
  proof
    assume "includes_str (c # s) t"
    then consider "startsWith (c # s) t" | "includes_str s t" by auto
    then show "\<exists>p q. c # s = p @ t @ q"
    proof cases
      case 1
      then obtain q where "c # s = t @ q" by (auto simp: startsWith_iff)
      then have "c # s = [] @ t @ q" by simp
      then show ?thesis by blast
    next
      case 2
      with Cons obtain p q where "s = p @ t @ q" by auto
      then have "c # s = (c # p) @ t @ q" by simp
      then show ?thesis by blast
    qed
  next
    assume "\<exists>p q. c # s = p @ t @ q"
    then obtain p q where pq: "c # s = p @ t @ q" by blast
    show "includes_str (c # s) t"
    proof (cases p)
      case Nil
      with pq have "startsWith (c # s) t" by (auto simp: startsWith_iff)
      then show ?thesis by simp
    next
      case (Cons d p')
      with pq have "s = p' @ t @ q" by simp
      with \<open>includes_str s t = (\<exists>p q. s = p @ t @ q)\<close> have "includes_str s t" by blast
      then show ?thesis by simp
    qed
  qed
qed

lemma collapseSeps_no_double: "\<not> includes_str (collapseSeps s) [hyphen, hyphen]"
proof (induction s rule: collapseSeps.induct)
  case 1
  show ?case by simp
next
  case (2 c s)
  show ?case
  proof (cases "isSep c")
    case True
    from collapseSeps_head [of s] have "\<not> startsWith (collapseSeps (dropWhile isSep s)) [hyphen]"
      by (auto simp: isSep_def)
    with True 2(1) show ?thesis
      by (cases "collapseSeps (dropWhile isSep s)") auto
  next
    case False
    then have "c \<noteq> hyphen" by (simp add: isSep_def)
    with False 2(2) show ?thesis by simp
  qed
qed

lemma stripHyphens_prefix:
  "dropWhile (\<lambda>c. c = hyphen) s =
   stripHyphens s @ rev (takeWhile (\<lambda>c. c = hyphen) (rev (dropWhile (\<lambda>c. c = hyphen) s)))"
proof -
  let ?h = "\<lambda>c. c = hyphen"
  let ?u = "dropWhile ?h s"
  have "stripHyphens s @ rev (takeWhile ?h (rev ?u)) =
        rev (takeWhile ?h (rev ?u) @ dropWhile ?h (rev ?u))"
    by (simp only: stripHyphens_def rev_append)
  also have "\<dots> = rev (rev ?u)"
    by (simp only: takeWhile_dropWhile_id)
  also have "\<dots> = ?u" by (simp only: rev_rev_ident)
  finally show ?thesis by simp
qed

lemma stripHyphens_decomp:
  "\<exists>p q. s = p @ stripHyphens s @ q"
proof -
  let ?h = "\<lambda>c. c = hyphen"
  obtain w where "dropWhile ?h s = stripHyphens s @ w"
    using stripHyphens_prefix [of s] by blast
  then have "takeWhile ?h s @ dropWhile ?h s = takeWhile ?h s @ stripHyphens s @ w"
    by (simp only:)
  then have "s = takeWhile ?h s @ stripHyphens s @ w"
    by (simp only: takeWhile_dropWhile_id)
  then show ?thesis by blast
qed

lemma includes_stripHyphens:
  assumes "includes_str (stripHyphens s) t"
  shows "includes_str s t"
proof -
  from assms obtain p q where a: "stripHyphens s = p @ t @ q"
    by (auto simp: includes_str_iff)
  obtain p' q' where b: "s = p' @ stripHyphens s @ q'"
    using stripHyphens_decomp by blast
  from a b have "s = (p' @ p) @ t @ (q @ q')" by simp
  then show ?thesis unfolding includes_str_iff by blast
qed

lemma stripHyphens_no_trailing: "\<not> startsWith (rev (stripHyphens s)) [hyphen]"
proof -
  let ?h = "\<lambda>c. c = hyphen"
  define d where "d = dropWhile ?h (rev (dropWhile ?h s))"
  have d: "d = [] \<or> hd d \<noteq> hyphen"
    unfolding d_def using hd_dropWhile [of ?h "rev (dropWhile ?h s)"] by blast
  have "rev (stripHyphens s) = d"
    by (simp add: stripHyphens_def d_def)
  with d show ?thesis
    by (cases d) auto
qed

lemma stripHyphens_no_leading: "\<not> startsWith (stripHyphens s) [hyphen]"
proof -
  let ?h = "\<lambda>c. c = hyphen"
  let ?u = "dropWhile ?h s"
  have u: "?u = [] \<or> hd ?u \<noteq> hyphen"
    using hd_dropWhile [of ?h s] by blast
  obtain w where dec: "?u = stripHyphens s @ w"
    using stripHyphens_prefix [of s] by blast
  show ?thesis
  proof (cases "stripHyphens s")
    case Nil
    then show ?thesis by simp
  next
    case (Cons c r)
    with dec have "?u = c # (r @ w)" by simp
    then have "?u \<noteq> [] \<and> hd ?u = c" by simp
    with u have "c \<noteq> hyphen" by blast
    with Cons show ?thesis by simp
  qed
qed

lemma generateSlug_chars:
  assumes "list_all (\<lambda>c. \<not> isUpper c) (uc t)"
  shows "list_all (\<lambda>c. isLower c \<or> isDigit c \<or> c = hyphen) (generateSlug uc t)"
proof -
  let ?l = "toLowerCase uc t"
  let ?r = "removeNonSlugChars (trim ?l)"
  have low: "\<forall>c \<in> set ?l. \<not> isUpper c"
    using toLowerCase_no_upper [of uc t] assms by (simp add: list_all_iff)
  have "set ?r \<subseteq> {c \<in> set ?l. isWord c \<or> isSpace c \<or> c = hyphen}"
    using set_trim [of ?l] by (auto simp: removeNonSlugChars_def)
  with low have r: "\<forall>c \<in> set ?r. \<not> isUpper c \<and> (isWord c \<or> isSpace c \<or> c = hyphen)"
    by blast
  have "\<forall>c \<in> set (collapseSeps ?r). isLower c \<or> isDigit c \<or> c = hyphen"
  proof
    fix c assume "c \<in> set (collapseSeps ?r)"
    with set_collapseSeps [of ?r] have "c \<in> set ?r \<and> \<not> isSep c \<or> c = hyphen" by blast
    with r show "isLower c \<or> isDigit c \<or> c = hyphen"
      by (auto simp: isSep_def isWord_def)
  qed
  with set_stripHyphens [of "collapseSeps ?r"] show ?thesis
    by (auto simp: generateSlug_def list_all_iff)
qed

text \<open>
  Claim C4. For every title, the slug that \<open>generateSlug\<close> returns is made of lowercase
  letters, digits, underscores and hyphens only, does not start with a hyphen, does not
  end with one, and holds no two hyphens in a row; and the slug of
  \<open>Intro to Anatomy!! 101\<close> is \<open>intro-to-anatomy-101\<close>. The one fact taken from the
  runtime is that lowering a string with a non-ASCII code unit leaves no \<open>A-Z\<close> in it.
\<close>

theorem generateSlug_wellformed:
  assumes "list_all (\<lambda>c. \<not> isUpper c) (uc t)"
  shows "list_all (\<lambda>c. isLower c \<or> isDigit c \<or> c = 95 \<or> c = hyphen) (generateSlug uc t)
       \<and> \<not> startsWith (generateSlug uc t) (js ''-'')
       \<and> \<not> startsWith (rev (generateSlug uc t)) (js ''-'')
       \<and> \<not> includes_str (generateSlug uc t) (js ''--'')
       \<and> generateSlug uc (js ''Intro to Anatomy!! 101'') = js ''intro-to-anatomy-101''"
proof -
  have 1: "list_all (\<lambda>c. isLower c \<or> isDigit c \<or> c = 95 \<or> c = hyphen) (generateSlug uc t)"
    using generateSlug_chars [of uc t] assms by (auto simp: list_all_iff)
  have j1: "js ''-'' = [hyphen]" and j2: "js ''--'' = [hyphen, hyphen]"
    by (simp_all add: js_def)
  have 2: "\<not> startsWith (generateSlug uc t) (js ''-'')"
    unfolding j1 generateSlug_def by (rule stripHyphens_no_leading)
  have 3: "\<not> startsWith (rev (generateSlug uc t)) (js ''-'')"
    unfolding j1 generateSlug_def by (rule stripHyphens_no_trailing)
  have 4: "\<not> includes_str (generateSlug uc t) (js ''--'')"
    unfolding j2 generateSlug_def
    using includes_stripHyphens collapseSeps_no_double by blast
  have 5: "generateSlug uc (js ''Intro to Anatomy!! 101'') = js ''intro-to-anatomy-101''"
    by (simp add: generateSlug_def js_def toLowerCase_def asciiLower_def isUpper_def trim_def
         isSpace_def removeNonSlugChars_def isWord_def isLower_def isDigit_def isSep_def
         stripHyphens_def)
  from 1 2 3 4 5 show ?thesis by blast
qed

theorem generateSlug_wellformed_witness:
  "list_all (\<lambda>c. \<not> isUpper c) (map asciiLower (js ''  --Caf'' @ [233] @ js ''_Au Lait--  ''))
   \<and> (list_all (\<lambda>c. isLower c \<or> isDigit c \<or> c = 95 \<or> c = hyphen)
         (generateSlug (map asciiLower) (js ''  --Caf'' @ [233] @ js ''_Au Lait--  ''))
       \<and> \<not> startsWith (generateSlug (map asciiLower) (js ''  --Caf'' @ [233] @ js ''_Au Lait--  '')) (js ''-'')
       \<and> \<not> startsWith (rev (generateSlug (map asciiLower) (js ''  --Caf'' @ [233] @ js ''_Au Lait--  ''))) (js ''-'')
       \<and> \<not> includes_str (generateSlug (map asciiLower) (js ''  --Caf'' @ [233] @ js ''_Au Lait--  '')) (js ''--'')
       \<and> generateSlug (map asciiLower) (js ''Intro to Anatomy!! 101'') = js ''intro-to-anatomy-101'')
   \<and> generateSlug (map asciiLower) (js ''  --Caf'' @ [233] @ js ''_Au Lait--  '') = js ''caf-au-lait''"
proof -
  have h: "list_all (\<lambda>c. \<not> isUpper c) (map asciiLower (js ''  --Caf'' @ [233] @ js ''_Au Lait--  ''))"
    by (simp add: js_def asciiLower_def isUpper_def)
  have e: "generateSlug (map asciiLower) (js ''  --Caf'' @ [233] @ js ''_Au Lait--  '') = js ''caf-au-lait''"
    by (simp add: generateSlug_def js_def toLowerCase_def asciiLower_def isUpper_def trim_def
         isSpace_def removeNonSlugChars_def isWord_def isLower_def isDigit_def isSep_def
         stripHyphens_def)
  note w = generateSlug_wellformed [of "map asciiLower" "js ''  --Caf'' @ [233] @ js ''_Au Lait--  ''"]
  show ?thesis
    by (rule conjI [OF h conjI [OF w [OF h] e]])
qed

section \<open>The read-time estimator\<close>

lemma splitSpaces_Nil: "splitSpaces [] = [[]]"
  by (simp add: splitSpaces.simps [of "[]"])

lemma splitSpaces_space:
  assumes "isSpace c"
  shows "splitSpaces (c # s) = [] # splitSpaces (dropWhile isSpace s)"
  using assms by (simp add: splitSpaces.simps [of "c # s"])

lemma splitSpaces_word:
  assumes "\<forall>c \<in> set w. \<not> isSpace c" and "isSpace sp"
  shows "splitSpaces (w @ sp # s) = w # splitSpaces (dropWhile isSpace s)"
proof -
  have "dropWhile (\<lambda>c. \<not> isSpace c) (w @ sp # s) = sp # s"
    using assms by (simp add: dropWhile_append)
  moreover have "takeWhile (\<lambda>c. \<not> isSpace c) (w @ sp # s) = w"
    using assms by (simp add: takeWhile_append)
  ultimately show ?thesis
    by (simp add: splitSpaces.simps [of "w @ sp # s"])
qed

lemma splitSpaces_last_word:
  assumes "\<forall>c \<in> set w. \<not> isSpace c"
  shows "splitSpaces w = [w]"
proof -
  have d: "dropWhile (\<lambda>c. \<not> isSpace c) w = []"
    using assms by simp
  show ?thesis
    by (subst splitSpaces.simps) (simp only: d list.case)
qed

lemma wordCount_Nil: "wordCount [] = 0"
  by (simp add: wordCount_def splitSpaces_Nil)

lemma wordCount_dropWhile: "wordCount (dropWhile isSpace s) = wordCount s"
proof (induction s)
  case Nil
  show ?case by simp
next
  case (Cons c s)
  show ?case
  proof (cases "isSpace c")
    case True
    then have "wordCount (c # s) = wordCount (dropWhile isSpace s)"
      by (simp add: wordCount_def splitSpaces_space)
    with True Cons show ?thesis by simp
  next
    case False
    then show ?thesis by simp
  qed
qed

lemma wordCount_space:
  assumes "isSpace c"
  shows "wordCount (c # s) = wordCount s"
  using wordCount_dropWhile [of "c # s"] wordCount_dropWhile [of s] assms by simp

lemma wordCount_word:
  assumes "w \<noteq> []" and "\<forall>c \<in> set w. \<not> isSpace c" and "isSpace sp"
  shows "wordCount (w @ sp # s) = Suc (wordCount s)"
proof -
  have "wordCount (w @ sp # s) = Suc (wordCount (dropWhile isSpace s))"
    using assms by (simp add: wordCount_def splitSpaces_word)
  then show ?thesis by (simp add: wordCount_dropWhile)
qed

lemma wordCount_last_word:
  assumes "w \<noteq> []" and "\<forall>c \<in> set w. \<not> isSpace c"
  shows "wordCount w = 1"
  using assms by (simp add: wordCount_def splitSpaces_last_word)

lemma wordCount_replicate: "wordCount (concat (replicate n (js ''w ''))) = n"
proof (induction n)
  case 0
  show ?case by (simp add: wordCount_Nil)
next
  case (Suc n)
  have "concat (replicate (Suc n) (js ''w '')) = [119] @ 32 # concat (replicate n (js ''w ''))"
    by (simp add: js_def)
  moreover have "wordCount ([119] @ 32 # concat (replicate n (js ''w ''))) =
                 Suc (wordCount (concat (replicate n (js ''w ''))))"
    by (rule wordCount_word) (simp_all add: isSpace_def)
  ultimately show ?case using Suc by simp
qed

lemma calculateReadTime_ceiling:
  "int (calculateReadTime s) = max 1 \<lceil>real (wordCount s) / 200\<rceil>"
proof -
  define n where "n = wordCount s"
  define q where "q = (n + 199) div 200"
  have lo: "200 * q \<le> n + 199" and hi: "n + 199 < 200 * q + 200"
    by (simp_all add: q_def)
  have "\<lceil>real n / 200\<rceil> = int q"
  proof (rule ceiling_unique)
    from lo have "real (200 * q) \<le> real (n + 199)" by (simp only: of_nat_le_iff)
    then show "real_of_int (int q) - 1 < real n / 200" by simp
    from hi have "n \<le> 200 * q" by simp
    then have "real n \<le> real (200 * q)" by (simp only: of_nat_le_iff)
    then show "real n / 200 \<le> real_of_int (int q)" by simp
  qed
  then show ?thesis
    by (simp add: calculateReadTime_def n_def q_def Let_def)
qed

text \<open>
  Claim C5. \<open>calculateReadTime\<close> counts the non-empty pieces that splitting at white
  space leaves, divides the count by 200, rounds up and returns at least 1. So the
  estimate of the empty string is 1, that of any content of 199 words is 1, that of any
  content of 201 words is 2, and a content with no fewer words than another has no
  smaller an estimate.
\<close>

theorem calculateReadTime_spec:
  "int (calculateReadTime s) = max 1 \<lceil>real (wordCount s) / 200\<rceil>
   \<and> calculateReadTime [] = 1
   \<and> (wordCount s199 = 199 \<longrightarrow> calculateReadTime s199 = 1)
   \<and> (wordCount s201 = 201 \<longrightarrow> calculateReadTime s201 = 2)
   \<and> (wordCount a \<le> wordCount b \<longrightarrow> calculateReadTime a \<le> calculateReadTime b)"
proof -
  have 1: "calculateReadTime [] = 1"
    by (simp add: calculateReadTime_def wordCount_Nil)
  have 2: "wordCount s199 = 199 \<longrightarrow> calculateReadTime s199 = 1"
    by (simp add: calculateReadTime_def)
  have 3: "wordCount s201 = 201 \<longrightarrow> calculateReadTime s201 = 2"
    by (simp add: calculateReadTime_def)
  have 4: "wordCount a \<le> wordCount b \<longrightarrow> calculateReadTime a \<le> calculateReadTime b"
  proof
    assume "wordCount a \<le> wordCount b"
    then have "(wordCount a + 199) div 200 \<le> (wordCount b + 199) div 200"
      by (intro div_le_mono) simp
    then show "calculateReadTime a \<le> calculateReadTime b"
      by (simp add: calculateReadTime_def Let_def) 
  qed
  from calculateReadTime_ceiling [of s] 1 2 3 4 show ?thesis by blast
qed

theorem calculateReadTime_spec_witness:
  "wordCount (concat (replicate 199 (js ''w ''))) = 199
   \<and> calculateReadTime (concat (replicate 199 (js ''w ''))) = 1
   \<and> wordCount (concat (replicate 201 (js ''w ''))) = 201
   \<and> calculateReadTime (concat (replicate 201 (js ''w ''))) = 2
   \<and> wordCount (concat (replicate 199 (js ''w ''))) \<le> wordCount (concat (replicate 201 (js ''w '')))
   \<and> calculateReadTime (concat (replicate 199 (js ''w ''))) \<le> calculateReadTime (concat (replicate 201 (js ''w '')))"
proof -
  let ?a = "concat (replicate 199 (js ''w ''))" and ?b = "concat (replicate 201 (js ''w ''))"
  have a: "wordCount ?a = 199" and b: "wordCount ?b = 201"
    by (rule wordCount_replicate)+
  from a b have le: "wordCount ?a \<le> wordCount ?b" by simp
  note t = calculateReadTime_spec [of "[]" ?a ?b ?a ?b]
  from t a have ra: "calculateReadTime ?a = 1" by blast
  from t b have rb: "calculateReadTime ?b = 2" by blast
  from t le have m: "calculateReadTime ?a \<le> calculateReadTime ?b" by blast
  from a ra b rb le m show ?thesis by blast
qed

section \<open>Sorting\<close>

lemma mset_insertBy: "mset (insertBy cmp x ys) = add_mset x (mset ys)"
  by (induction ys) auto

lemma mset_sort_js: "mset (sort_js cmp xs) = mset xs"
  by (induction xs) (auto simp: sort_js_def mset_insertBy)

lemma set_insertBy: "set (insertBy cmp x ys) = insert x (set ys)"
  by (induction ys) auto

lemma set_sort_js: "set (sort_js cmp xs) = set xs"
  by (induction xs) (auto simp: sort_js_def set_insertBy)

lemma sort_js_Nil: "sort_js cmp [] = []"
  by (simp add: sort_js_def)

lemma sort_js_Cons: "sort_js cmp (x # xs) = insertBy cmp x (sort_js cmp xs)"
  by (simp add: sort_js_def)

lemma consistent_total:
  assumes "consistent cmp"
  shows "cmp a b \<le> 0 \<or> cmp b a \<le> 0"
proof (cases "cmp a b \<le> 0")
  case True
  then show ?thesis by simp
next
  case False
  then have "0 < cmp a b" by simp
  with assms have "cmp b a < 0" unfolding consistent_def by blast
  then show ?thesis by simp
qed

lemma consistent_trans:
  assumes "consistent cmp" and "cmp a b \<le> 0" and "cmp b c \<le> 0"
  shows "cmp a c \<le> 0"
  using assms unfolding consistent_def by blast

lemma sorted_insertBy:
  assumes "consistent cmp" and "sorted_wrt (\<lambda>a b. cmp a b \<le> 0) ys"
  shows "sorted_wrt (\<lambda>a b. cmp a b \<le> 0) (insertBy cmp x ys)"
  using assms(2)
proof (induction ys)
  case Nil
  show ?case by simp
next
  case (Cons y ys)
  show ?case
  proof (cases "cmp x y \<le> 0")
    case True
    have "cmp x z \<le> 0" if "z \<in> set ys" for z
    proof -
      from Cons.prems that have "cmp y z \<le> 0" by simp
      with True show ?thesis by (rule consistent_trans [OF assms(1)])
    qed
    with True Cons.prems show ?thesis by simp
  next
    case False
    then have "cmp y x \<le> 0"
      using consistent_total [OF assms(1), of x y] by blast
    with False Cons show ?thesis by (auto simp: set_insertBy)
  qed
qed

lemma sorted_sort_js:
  assumes "consistent cmp"
  shows "sorted_wrt (\<lambda>a b. cmp a b \<le> 0) (sort_js cmp xs)"
  by (induction xs) (simp_all add: sort_js_def sorted_insertBy [OF assms])

lemma insertBy_front:
  assumes "\<forall>z \<in> set zs. cmp x z \<le> 0"
  shows "insertBy cmp x zs = x # zs"
  using assms by (cases zs) simp_all

lemma sort_js_sorted:
  assumes "sorted_wrt (\<lambda>a b. cmp a b \<le> 0) xs"
  shows "sort_js cmp xs = xs"
  using assms by (induction xs) (simp_all add: sort_js_def insertBy_front)

lemma sort_js_idem:
  assumes "consistent cmp"
  shows "sort_js cmp (sort_js cmp xs) = sort_js cmp xs"
  by (rule sort_js_sorted) (rule sorted_sort_js [OF assms])

lemma filter_insertBy:
  assumes "consistent cmp" and "sorted_wrt (\<lambda>a b. cmp a b \<le> 0) ys"
  shows "filter P (insertBy cmp x ys) =
         (if P x then insertBy cmp x (filter P ys) else filter P ys)"
  using assms(2)
proof (induction ys)
  case Nil
  show ?case by simp
next
  case (Cons y ys)
  show ?case
  proof (cases "cmp x y \<le> 0")
    case True
    have "cmp x z \<le> 0" if "z \<in> set ys" for z
    proof -
      from Cons.prems that have "cmp y z \<le> 0" by simp
      with True show ?thesis by (rule consistent_trans [OF assms(1)])
    qed
    then have "insertBy cmp x (filter P ys) = x # filter P ys"
      by (intro insertBy_front) simp
    with True show ?thesis by simp
  next
    case False
    with Cons show ?thesis by simp
  qed
qed

lemma filter_sort_js:
  assumes "consistent cmp"
  shows "filter P (sort_js cmp xs) = sort_js cmp (filter P xs)"
  by (induction xs)
     (simp_all add: sort_js_Nil sort_js_Cons filter_insertBy [OF assms sorted_sort_js [OF assms]])

lemma consistent_compareNotes:
  assumes "consistent lc"
  shows "consistent (compareNotes lc sortBy)"
proof -
  have anti: "(lc a b < 0) = (0 < lc b a)" for a b
    using assms unfolding consistent_def by blast
  have tr: "lc a b \<le> 0 \<Longrightarrow> lc b c \<le> 0 \<Longrightarrow> lc a c \<le> 0" for a b c
    using assms unfolding consistent_def by blast
  have "(compareNotes lc sortBy a b < 0) = (0 < compareNotes lc sortBy b a)" for a b
    using anti [of "title a" "title b"] by (auto simp: compareNotes_def)
  moreover have "compareNotes lc sortBy a c \<le> 0"
    if "compareNotes lc sortBy a b \<le> 0" and "compareNotes lc sortBy b c \<le> 0" for a b c
    using that tr [of "title a" "title b" "title c"]
    by (auto simp: compareNotes_def split: if_splits)
  ultimately show ?thesis unfolding consistent_def by blast
qed

lemma lexCompare_anti: "(lexCompare a b < 0) = (0 < lexCompare b a)"
  by (induction a b rule: lexCompare.induct) auto

lemma lexCompare_trans:
  "lexCompare a b \<le> 0 \<Longrightarrow> lexCompare b c \<le> 0 \<Longrightarrow> lexCompare a c \<le> 0"
proof (induction a b arbitrary: c rule: lexCompare.induct)
  case 1
  then show ?case by simp
next
  case (2 y ys)
  then show ?case by (cases c) auto
next
  case (3 x xs)
  then show ?case by simp
next
  case (4 x xs y ys)
  from "4.prems"(2) obtain z zs where c: "c = z # zs"
    by (cases c) auto
  from "4.prems"(1) have xy: "x < y \<or> (x = y \<and> lexCompare xs ys \<le> 0)"
    by (simp split: if_splits)
  from "4.prems"(2) c have yz: "y < z \<or> (y = z \<and> lexCompare ys zs \<le> 0)"
    by (simp split: if_splits)
  show ?case
  proof (cases "x < z")
    case True
    with c show ?thesis by simp
  next
    case False
    with xy yz have eq: "x = y" "y = z" and le: "lexCompare xs ys \<le> 0" "lexCompare ys zs \<le> 0"
      by auto
    have "lexCompare xs zs \<le> 0"
      using eq le by (intro "4.IH" [of zs]) simp_all
    with eq c show ?thesis by simp
  qed
qed

lemma consistent_lexCompare: "consistent lexCompare"
  unfolding consistent_def using lexCompare_anti lexCompare_trans by blast

text \<open>
  Claim C3. Sorting is a stage of its own, applied to what filtering leaves: the unit
  page sorts its filtered notes with the function that sorts the search results, the
  sorted list holds the notes of its input, and sorting commutes with any filter. The
  key \<open>newest\<close> orders by \<open>created_at\<close> descending, \<open>oldest\<close> ascending, \<open>popular\<close> by
  \<open>view_count\<close> descending and \<open>title\<close> by the locale's comparison of titles ascending;
  sorting a sorted list again returns it as it is. The locale's comparison is taken to
  order the strings.
\<close>

theorem sorting_spec:
  assumes "consistent lc"
  shows "sorted_wrt (\<lambda>a b. created_at b \<le> created_at a) (sortedResults lc (js ''newest'') xs)
   \<and> sorted_wrt (\<lambda>a b. created_at a \<le> created_at b) (sortedResults lc (js ''oldest'') xs)
   \<and> sorted_wrt (\<lambda>a b. view_count b \<le> view_count a) (sortedResults lc (js ''popular'') xs)
   \<and> sorted_wrt (\<lambda>a b. lc (title a) (title b) \<le> 0) (sortedResults lc (js ''title'') xs)
   \<and> mset (sortedResults lc sortBy xs) = mset xs
   \<and> sortedResults lc sortBy (sortedResults lc sortBy xs) = sortedResults lc sortBy xs
   \<and> unitNotes lc notes unitId difficultyFilter sortBy =
       sortedResults lc sortBy (filter (unitFilter unitId difficultyFilter) notes)
   \<and> filter P (sortedResults lc sortBy xs) = sortedResults lc sortBy (filter P xs)"
proof -
  note c = consistent_compareNotes [OF assms]
  have s: "sorted_wrt (\<lambda>a b. compareNotes lc k a b \<le> 0) (sortedResults lc k xs)" for k
    unfolding sortedResults_def by (rule sorted_sort_js [OF c])
  have 1: "sorted_wrt (\<lambda>a b. created_at b \<le> created_at a) (sortedResults lc (js ''newest'') xs)"
    using s [of "js ''newest''"] by (simp add: compareNotes_def)
  have 2: "sorted_wrt (\<lambda>a b. created_at a \<le> created_at b) (sortedResults lc (js ''oldest'') xs)"
    using s [of "js ''oldest''"] by (simp add: compareNotes_def js_def)
  have 3: "sorted_wrt (\<lambda>a b. view_count b \<le> view_count a) (sortedResults lc (js ''popular'') xs)"
    using s [of "js ''popular''"] by (simp add: compareNotes_def js_def)
  have 4: "sorted_wrt (\<lambda>a b. lc (title a) (title b) \<le> 0) (sortedResults lc (js ''title'') xs)"
    using s [of "js ''title''"] by (simp add: compareNotes_def js_def)
  have 5: "mset (sortedResults lc sortBy xs) = mset xs"
    by (simp add: sortedResults_def mset_sort_js)
  have 6: "sortedResults lc sortBy (sortedResults lc sortBy xs) = sortedResults lc sortBy xs"
    unfolding sortedResults_def by (rule sort_js_idem [OF c])
  have 7: "unitNotes lc notes unitId difficultyFilter sortBy =
       sortedResults lc sortBy (filter (unitFilter unitId difficultyFilter) notes)"
    by (simp add: unitNotes_def sortedResults_def)
  have 8: "filter P (sortedResults lc sortBy xs) = sortedResults lc sortBy (filter P xs)"
    unfolding sortedResults_def by (rule filter_sort_js [OF c])
  from 1 2 3 4 5 6 7 8 show ?thesis by blast
qed

theorem sorting_spec_witness:
  "consistent lexCompare
   \<and> (sorted_wrt (\<lambda>a b. created_at b \<le> created_at a) (sortedResults lexCompare (js ''newest'') sampleNotes)
   \<and> sorted_wrt (\<lambda>a b. created_at a \<le> created_at b) (sortedResults lexCompare (js ''oldest'') sampleNotes)
   \<and> sorted_wrt (\<lambda>a b. view_count b \<le> view_count a) (sortedResults lexCompare (js ''popular'') sampleNotes)
   \<and> sorted_wrt (\<lambda>a b. lexCompare (title a) (title b) \<le> 0) (sortedResults lexCompare (js ''title'') sampleNotes)
   \<and> mset (sortedResults lexCompare (js ''popular'') sampleNotes) = mset sampleNotes
   \<and> sortedResults lexCompare (js ''popular'') (sortedResults lexCompare (js ''popular'') sampleNotes) =
       sortedResults lexCompare (js ''popular'') sampleNotes
   \<and> unitNotes lexCompare sampleNotes (Some (js ''u1'')) (js ''all'') (js ''popular'') =
       sortedResults lexCompare (js ''popular'') (filter (unitFilter (Some (js ''u1'')) (js ''all'')) sampleNotes)
   \<and> filter is_published (sortedResults lexCompare (js ''popular'') sampleNotes) =
       sortedResults lexCompare (js ''popular'') (filter is_published sampleNotes))
   \<and> sortedResults lexCompare (js ''popular'') sampleNotes =
       [sampleNote ''a'' ''u1'' False 10 300, sampleNote ''c'' ''u2'' True 7 200,
        sampleNote ''b'' ''u1'' True 5 100]
   \<and> sortedResults lexCompare (js ''title'') sampleNotes =
       [sampleNote ''a'' ''u1'' False 10 300, sampleNote ''b'' ''u1'' True 5 100,
        sampleNote ''c'' ''u2'' True 7 200]
   \<and> sortedResults lexCompare (js ''oldest'') sampleNotes =
       [sampleNote ''b'' ''u1'' True 5 100, sampleNote ''c'' ''u2'' True 7 200,
        sampleNote ''a'' ''u1'' False 10 300]"
proof -
  note t = sorting_spec [OF consistent_lexCompare, of sampleNotes "js ''popular''" sampleNotes
      "Some (js ''u1'')" "js ''all''" is_published]
  have e1: "sortedResults lexCompare (js ''popular'') sampleNotes =
       [sampleNote ''a'' ''u1'' False 10 300, sampleNote ''c'' ''u2'' True 7 200,
        sampleNote ''b'' ''u1'' True 5 100]"
    by (simp add: sortedResults_def sort_js_def compareNotes_def sampleNotes_def sampleNote_def js_def)
  have e2: "sortedResults lexCompare (js ''title'') sampleNotes =
       [sampleNote ''a'' ''u1'' False 10 300, sampleNote ''b'' ''u1'' True 5 100,
        sampleNote ''c'' ''u2'' True 7 200]"
    by (simp add: sortedResults_def sort_js_def compareNotes_def sampleNotes_def sampleNote_def js_def)
  have e3: "sortedResults lexCompare (js ''oldest'') sampleNotes =
       [sampleNote ''b'' ''u1'' True 5 100, sampleNote ''c'' ''u2'' True 7 200,
        sampleNote ''a'' ''u1'' False 10 300]"
    by (simp add: sortedResults_def sort_js_def compareNotes_def sampleNotes_def sampleNote_def js_def)
  show ?thesis
    by (rule conjI [OF consistent_lexCompare conjI [OF t conjI [OF e1 conjI [OF e2 e3]]]])
qed

section \<open>The student-facing pages\<close>

lemma yearPage_notes_published:
  "list_all is_published (yearPage_notes parseInt loading years units notes yearNumber selectedUnit)"
  by (auto simp: yearPage_notes_def yearNotes_def yearUnitNotes_def list_all_iff
           split: option.splits)

lemma unitPage_notes_published:
  "list_all is_published (unitPage_notes lc loading units notes unitId difficultyFilter sortBy)"
  by (auto simp: unitPage_notes_def unitNotes_def unitFilter_def set_sort_js list_all_iff
           split: option.splits)

lemma relatedNotes_published: "list_all is_published (relatedNotes notes nt)"
  by (auto simp: relatedNotes_def list_all_iff dest: in_set_takeD)

lemma notePage_notes_published_iff:
  "list_all is_published (notePage_notes loading notes slugParam) \<longleftrightarrow>
   loading \<or> (case findNote notes slugParam of None \<Rightarrow> True | Some n \<Rightarrow> is_published n)"
  using relatedNotes_published
  by (auto simp: notePage_notes_def split: option.splits)

text \<open>
  Claim C1. Every note that a student-facing page displays is published, whatever the
  route. The year page, the unit page and the related notes of the note page keep to it
  (the lemmas above): each filters on \<open>is_published\<close>. The note page looks its own
  note up by the slug alone: with one draft in the store and the slug of the draft in
  the route, the page renders the draft.
\<close>

theorem notePage_renders_draft:
  "notePage_notes False [sampleNote ''draft'' ''u1'' False 0 0] (Some (js ''draft''))
     = [sampleNote ''draft'' ''u1'' False 0 0]
   \<and> \<not> is_published (sampleNote ''draft'' ''u1'' False 0 0)"
  by (simp add: notePage_notes_def findNote_def relatedNotes_def sampleNote_def)

text \<open>
  Claim C10. On the note page the list of related notes holds at most three notes, each
  of them published, of the unit of the displayed note, and with an id other than that
  of the displayed note; they come in the order of the store, and there are none when
  no note is displayed.
\<close>

theorem relatedNotes_spec:
  "length (relatedNotes notes (Some shown)) \<le> 3
   \<and> list_all (\<lambda>n. is_published n \<and> unit_id n = unit_id shown \<and> note_id n \<noteq> note_id shown)
        (relatedNotes notes (Some shown))
   \<and> subseq (relatedNotes notes (Some shown)) notes
   \<and> relatedNotes notes None = []"
proof -
  have "subseq (take 3 xs) xs" for xs :: "Note list"
    by (metis append_take_drop_id list_emb_append_mono subseq_order.order_refl
        append_Nil2 list_emb_Nil)
  then have "subseq (relatedNotes notes (Some shown)) notes"
    unfolding relatedNotes_def
    by (meson subseq_filter_left subseq_order.order_trans)
  then show ?thesis
    by (auto simp: relatedNotes_def list_all_iff dest: in_set_takeD)
qed

theorem relatedNotes_spec_witness:
  "(length (relatedNotes sampleUnit (Some (sampleNote ''n0'' ''u1'' True 0 0))) \<le> 3
    \<and> list_all (\<lambda>n. is_published n \<and> unit_id n = unit_id (sampleNote ''n0'' ''u1'' True 0 0)
                    \<and> note_id n \<noteq> note_id (sampleNote ''n0'' ''u1'' True 0 0))
         (relatedNotes sampleUnit (Some (sampleNote ''n0'' ''u1'' True 0 0)))
    \<and> subseq (relatedNotes sampleUnit (Some (sampleNote ''n0'' ''u1'' True 0 0))) sampleUnit
    \<and> relatedNotes sampleUnit None = [])
   \<and> findNote sampleUnit (Some (js ''n0'')) = Some (sampleNote ''n0'' ''u1'' True 0 0)
   \<and> relatedNotes sampleUnit (Some (sampleNote ''n0'' ''u1'' True 0 0))
       = [sampleNote ''n1'' ''u1'' True 0 0, sampleNote ''n4'' ''u1'' True 0 0,
          sampleNote ''n5'' ''u1'' True 0 0]"
proof -
  have f: "findNote sampleUnit (Some (js ''n0'')) = Some (sampleNote ''n0'' ''u1'' True 0 0)"
    by (simp add: findNote_def sampleUnit_def sampleNote_def)
  have e: "relatedNotes sampleUnit (Some (sampleNote ''n0'' ''u1'' True 0 0))
       = [sampleNote ''n1'' ''u1'' True 0 0, sampleNote ''n4'' ''u1'' True 0 0,
          sampleNote ''n5'' ''u1'' True 0 0]"
    by (simp add: relatedNotes_def sampleUnit_def sampleNote_def js_def)
  show ?thesis
    by (rule conjI [OF relatedNotes_spec conjI [OF f e]])
qed

section \<open>The admin manager\<close>

lemma toLowerCase_Nil: "toLowerCase uc [] = []"
  by (simp add: toLowerCase_def)

lemma includes_str_Nil: "includes_str s []"
  by (cases s) simp_all

text \<open>
  Claim C2. A note is in the filtered list of the admin manager if and only if it is a
  note of the collection and meets every criterion: the lowered search term is a
  substring of its lowered title or of its lowered excerpt, the status filter is
  \<open>all\<close>, or \<open>published\<close> and the note is published, or \<open>draft\<close> and the note is not
  published, and the year filter is \<open>all\<close> or the \<open>year_id\<close> of the note. The empty
  search term excludes no note, and the list keeps the order of the collection.
\<close>

theorem filteredNotes_iff:
  "(n \<in> set (filteredNotes uc notes search status yr) \<longleftrightarrow>
      n \<in> set notes
      \<and> ((\<exists>p q. toLowerCase uc (title n) = p @ toLowerCase uc search @ q)
         \<or> (\<exists>p q. toLowerCase uc (excerpt n) = p @ toLowerCase uc search @ q))
      \<and> (status = js ''all'' \<or> (status = js ''published'' \<and> is_published n)
         \<or> (status = js ''draft'' \<and> \<not> is_published n))
      \<and> (yr = js ''all'' \<or> year_id n = yr))
   \<and> (n \<in> set (filteredNotes uc notes [] status yr) \<longleftrightarrow>
      n \<in> set notes
      \<and> (status = js ''all'' \<or> (status = js ''published'' \<and> is_published n)
         \<or> (status = js ''draft'' \<and> \<not> is_published n))
      \<and> (yr = js ''all'' \<or> year_id n = yr))
   \<and> filteredNotes uc notes [] (js ''all'') (js ''all'') = notes
   \<and> subseq (filteredNotes uc notes search status yr) notes"
proof -
  have 1: "n \<in> set (filteredNotes uc notes search status yr) \<longleftrightarrow>
      n \<in> set notes
      \<and> ((\<exists>p q. toLowerCase uc (title n) = p @ toLowerCase uc search @ q)
         \<or> (\<exists>p q. toLowerCase uc (excerpt n) = p @ toLowerCase uc search @ q))
      \<and> (status = js ''all'' \<or> (status = js ''published'' \<and> is_published n)
         \<or> (status = js ''draft'' \<and> \<not> is_published n))
      \<and> (yr = js ''all'' \<or> year_id n = yr)"
    by (simp add: filteredNotes_def Let_def includes_str_iff)
  have 2: "n \<in> set (filteredNotes uc notes [] status yr) \<longleftrightarrow>
      n \<in> set notes
      \<and> (status = js ''all'' \<or> (status = js ''published'' \<and> is_published n)
         \<or> (status = js ''draft'' \<and> \<not> is_published n))
      \<and> (yr = js ''all'' \<or> year_id n = yr)"
    by (simp add: filteredNotes_def Let_def toLowerCase_Nil includes_str_Nil)
  have 3: "filteredNotes uc notes [] (js ''all'') (js ''all'') = notes"
    by (simp add: filteredNotes_def Let_def toLowerCase_Nil includes_str_Nil)
  have 4: "subseq (filteredNotes uc notes search status yr) notes"
    by (simp add: filteredNotes_def)
  from 1 2 3 4 show ?thesis by blast
qed

theorem filteredNotes_iff_witness:
  "((sampleNote ''a'' ''u1'' False 10 300 \<in> set (filteredNotes id sampleNotes (js ''A'') (js ''draft'') (js ''y1'')) \<longleftrightarrow>
      sampleNote ''a'' ''u1'' False 10 300 \<in> set sampleNotes
      \<and> ((\<exists>p q. toLowerCase id (title (sampleNote ''a'' ''u1'' False 10 300)) = p @ toLowerCase id (js ''A'') @ q)
         \<or> (\<exists>p q. toLowerCase id (excerpt (sampleNote ''a'' ''u1'' False 10 300)) = p @ toLowerCase id (js ''A'') @ q))
      \<and> (js ''draft'' = js ''all'' \<or> (js ''draft'' = js ''published'' \<and> is_published (sampleNote ''a'' ''u1'' False 10 300))
         \<or> (js ''draft'' = js ''draft'' \<and> \<not> is_published (sampleNote ''a'' ''u1'' False 10 300)))
      \<and> (js ''y1'' = js ''all'' \<or> year_id (sampleNote ''a'' ''u1'' False 10 300) = js ''y1''))
   \<and> (sampleNote ''a'' ''u1'' False 10 300 \<in> set (filteredNotes id sampleNotes [] (js ''draft'') (js ''y1'')) \<longleftrightarrow>
      sampleNote ''a'' ''u1'' False 10 300 \<in> set sampleNotes
      \<and> (js ''draft'' = js ''all'' \<or> (js ''draft'' = js ''published'' \<and> is_published (sampleNote ''a'' ''u1'' False 10 300))
         \<or> (js ''draft'' = js ''draft'' \<and> \<not> is_published (sampleNote ''a'' ''u1'' False 10 300)))
      \<and> (js ''y1'' = js ''all'' \<or> year_id (sampleNote ''a'' ''u1'' False 10 300) = js ''y1''))
   \<and> filteredNotes id sampleNotes [] (js ''all'') (js ''all'') = sampleNotes
   \<and> subseq (filteredNotes id sampleNotes (js ''A'') (js ''draft'') (js ''y1'')) sampleNotes)
   \<and> filteredNotes id sampleNotes (js ''A'') (js ''draft'') (js ''y1'') = [sampleNote ''a'' ''u1'' False 10 300]
   \<and> filteredNotes id sampleNotes (js ''A'') (js ''published'') (js ''y1'') = []
   \<and> filteredNotes id sampleNotes (js ''NOTES'') (js ''published'') (js ''all'')
       = [sampleNote ''b'' ''u1'' True 5 100, sampleNote ''c'' ''u2'' True 7 200]"
proof -
  have e1: "filteredNotes id sampleNotes (js ''A'') (js ''draft'') (js ''y1'') = [sampleNote ''a'' ''u1'' False 10 300]"
    by (simp add: filteredNotes_def sampleNotes_def sampleNote_def js_def toLowerCase_def
          asciiLower_def isUpper_def)
  have e2: "filteredNotes id sampleNotes (js ''A'') (js ''published'') (js ''y1'') = []"
    by (simp add: filteredNotes_def sampleNotes_def sampleNote_def js_def toLowerCase_def
          asciiLower_def isUpper_def)
  have e3: "filteredNotes id sampleNotes (js ''NOTES'') (js ''published'') (js ''all'')
       = [sampleNote ''b'' ''u1'' True 5 100, sampleNote ''c'' ''u2'' True 7 200]"
    by (simp add: filteredNotes_def sampleNotes_def sampleNote_def js_def toLowerCase_def
          asciiLower_def isUpper_def)
  show ?thesis
    by (rule conjI [OF filteredNotes_iff conjI [OF e1 conjI [OF e2 e3]]])
qed

text \<open>
  Claim C6. \<open>validateForm\<close> checks the rules in the order title, content, excerpt, unit,
  year, and reports the message of the first rule that fails and no other; a text counts
  as empty when it holds nothing but white space. When a rule fails, \<open>handleSubmit\<close>
  shows that message, leaves the state as it is and calls neither \<open>createNote\<close> nor
  \<open>updateNote\<close>; when none fails it makes one such call. A draft with neither title nor
  content reports the title.
\<close>

theorem validateForm_ordered:
  "validateForm fd =
     (case find (\<lambda>r. \<not> fst r) (validationRules_spec fd) of
        None \<Rightarrow> (True, [])
      | Some r \<Rightarrow> (False, [ToastError (snd r)]))
   \<and> (\<not> fst (validateForm (formData st)) \<longrightarrow>
        handleSubmit uc outcome st = (st, snd (validateForm (formData st)))
        \<and> filter isStoreCall (snd (handleSubmit uc outcome st)) = [])
   \<and> (fst (validateForm (formData st)) \<longrightarrow>
        length (filter isStoreCall (snd (handleSubmit uc outcome st))) = 1)
   \<and> (trim (fd_title fd) = [] \<and> trim (fd_content fd) = [] \<longrightarrow>
        validateForm fd = (False, [ToastError (js ''Note title is required'')]))"
proof -
  have 1: "validateForm fd =
     (case find (\<lambda>r. \<not> fst r) (validationRules_spec fd) of
        None \<Rightarrow> (True, [])
      | Some r \<Rightarrow> (False, [ToastError (snd r)]))"
    by (simp add: validateForm_def validationRules_spec_def)
  have v: "filter isStoreCall (snd (validateForm f)) = []" for f
    by (simp add: validateForm_def)
  have 2: "\<not> fst (validateForm (formData st)) \<longrightarrow>
        handleSubmit uc outcome st = (st, snd (validateForm (formData st)))
        \<and> filter isStoreCall (snd (handleSubmit uc outcome st)) = []"
    using v [of "formData st"]
    by (cases "validateForm (formData st)") (simp add: handleSubmit_def)
  have 3: "fst (validateForm (formData st)) \<longrightarrow>
        length (filter isStoreCall (snd (handleSubmit uc outcome st))) = 1"
    using v [of "formData st"]
    by (cases "validateForm (formData st)")
       (auto simp: handleSubmit_def Let_def split: option.splits)
  have 4: "trim (fd_title fd) = [] \<and> trim (fd_content fd) = [] \<longrightarrow>
        validateForm fd = (False, [ToastError (js ''Note title is required'')])"
    by (simp add: validateForm_def)
  from 1 2 3 4 show ?thesis by blast
qed

theorem validateForm_ordered_witness:
  "trim (fd_title (formData blankManager)) = [] \<and> trim (fd_content (formData blankManager)) = []
   \<and> validateForm (formData blankManager) = (False, [ToastError (js ''Note title is required'')])
   \<and> \<not> fst (validateForm (formData blankManager))
   \<and> handleSubmit id None blankManager = (blankManager, snd (validateForm (formData blankManager)))
   \<and> filter isStoreCall (snd (handleSubmit id None blankManager)) = []
   \<and> fst (validateForm (formData sampleDraft))
   \<and> length (filter isStoreCall (snd (handleSubmit id None sampleDraft))) = 1"
proof -
  have h1: "trim (fd_title (formData blankManager)) = [] \<and> trim (fd_content (formData blankManager)) = []"
    by (simp add: blankManager_def INITIAL_FORM_DATA_def trim_def)
  have h2: "fst (validateForm (formData sampleDraft))"
    by (simp add: sampleDraft_def blankManager_def INITIAL_FORM_DATA_def validateForm_def
          trim_def js_def isSpace_def)
  note a = validateForm_ordered [of "formData blankManager" blankManager id None]
  note b = validateForm_ordered [of "formData sampleDraft" sampleDraft id None]
  from a h1 have c1: "validateForm (formData blankManager) = (False, [ToastError (js ''Note title is required'')])"
    by blast
  then have c2: "\<not> fst (validateForm (formData blankManager))"
    by simp
  from a c2 have c3: "handleSubmit id None blankManager = (blankManager, snd (validateForm (formData blankManager)))
      \<and> filter isStoreCall (snd (handleSubmit id None blankManager)) = []"
    by blast
  from b h2 have c4: "length (filter isStoreCall (snd (handleSubmit id None sampleDraft))) = 1"
    by blast
  from h1 c1 c2 c3 h2 c4 show ?thesis by blast
qed

text \<open>
  Claim C7. Selecting a year in the form sets \<open>year_id\<close> to the selected value and
  \<open>unit_id\<close> to the empty string, whatever \<open>unit_id\<close> was, and changes nothing else.
\<close>

theorem yearSelect_clears_unit:
  "fd_year_id (formData (yearSelectOnChange v st)) = v
   \<and> fd_unit_id (formData (yearSelectOnChange v st)) = []
   \<and> yearSelectOnChange v st = st\<lparr>formData := (formData st)\<lparr>fd_year_id := v, fd_unit_id := []\<rparr>\<rparr>"
  by (simp add: yearSelectOnChange_def handleFormDataChange_def)

text \<open>
  Claim C8. \<open>togglePublishStatus\<close> makes one call to the store, an update of the note
  whose payload has the one field \<open>is_published\<close>, set to the negation of its current
  value, so that a partial update changes no other field of the note. The state of the
  component is the same afterwards, whether the call succeeds or fails, and a failure is
  shown as an error toast: the message of the error, or a fixed text.
\<close>

theorem togglePublishStatus_spec:
  "filter isStoreCall (snd (togglePublishStatus outcome n st))
     = [UpdateNote (note_id n) [(''is_published'', VBool (\<not> is_published n))]]
   \<and> applyUpdate [(''is_published'', VBool (\<not> is_published n))] n = n\<lparr>is_published := \<not> is_published n\<rparr>
   \<and> fst (togglePublishStatus outcome n st) = st
   \<and> filter isToast (snd (togglePublishStatus (Some (ErrorObj m)) n st)) = [ToastError m]
   \<and> filter isToast (snd (togglePublishStatus (Some NonError) n st))
       = [ToastError (js ''Failed to update note status'')]"
  by (cases outcome) (simp_all add: togglePublishStatus_def Let_def applyUpdate_def setNoteField_def)

text \<open>
  Claim C9, as amended. Editing the title sets the slug of the draft to the slug
  generated from the new title, whatever the slug was and however it got there: a slug
  typed by hand after the last title edit is replaced as well. Nothing in the component
  records that the slug was typed by hand.
\<close>

theorem handleTitleChange_overwrites_slug:
  "fd_slug (formData (handleTitleChange uc t (handleFormDataChange (Slug s) st))) = generateSlug uc t
   \<and> handleTitleChange uc t st = st\<lparr>formData := (formData st)\<lparr>fd_title := t, fd_slug := generateSlug uc t\<rparr>\<rparr>"
  by (simp add: handleTitleChange_def handleFormDataChange_def)

text \<open>
  The claim as it was stated fails: after the title \<open>Heart\<close>, the slug typed by hand
  \<open>my-slug\<close> and the title \<open>Hearts\<close>, the slug is \<open>hearts\<close>.
\<close>

theorem manual_slug_overwritten:
  "fd_slug (formData (handleFormDataChange (Slug (js ''my-slug'')) (handleTitleChange id (js ''Heart'') blankManager))) = js ''my-slug''
   \<and> fd_slug (formData (handleTitleChange id (js ''Hearts'')
         (handleFormDataChange (Slug (js ''my-slug'')) (handleTitleChange id (js ''Heart'') blankManager)))) = js ''hearts''
   \<and> js ''hearts'' \<noteq> js ''my-slug''"
  by (simp add: handleTitleChange_def handleFormDataChange_def blankManager_def generateSlug_def
        js_def toLowerCase_def asciiLower_def isUpper_def trim_def isSpace_def
        removeNonSlugChars_def isWord_def isLower_def isDigit_def isSep_def stripHyphens_def)

end
